theory Spec2Isabelle
  imports Main "HOL-Library.Word"
begin

section \<open>Solidity value types\<close>

type_synonym address = "160 word"
type_synonym uint256 = "256 word"
type_synonym uint32 = "32 word"
type_synonym bytes32 = "256 word"
type_synonym bytes = "8 word list"

section \<open>The ciphertext and authorization service\<close>

text \<open>
  Modelled from the spec: the homomorphic-encryption library (\<^verbatim>\<open>FHE.sol\<close>, imported by the
  contract, not among the sources). Section 4.3 of the specification gives its contract:
  import of an external handle with an authenticity check, a less-than comparison that is
  the order of the plaintext domain with ties "not less", a selection, and idempotent
  decryption grants. A handle is the symbolic expression that produced it; \<open>decrypt\<close> is
  the plaintext view that an authorized principal obtains from the service.
  \<open>Uninit\<close> is the all-zero handle, the default value of contract storage; its plaintext
  view is taken to be zero. Only persistent grants are recorded, and gas is not modelled.
\<close>

datatype euint32 =
    Uninit
  | Input bytes32 uint32
  | Trivial uint32
  | Select ebool euint32 euint32
and ebool =
    Lt euint32 euint32

primrec decrypt :: "euint32 \<Rightarrow> uint32" and decrypt_bool :: "ebool \<Rightarrow> bool" where
  "decrypt Uninit = 0"
| "decrypt (Input h v) = v"
| "decrypt (Trivial v) = v"
| "decrypt (Select c a b) = (if decrypt_bool c then decrypt a else decrypt b)"
| "decrypt_bool (Lt a b) = (decrypt a < decrypt b)"

text \<open>
  The input-authenticity check is a parameter of the model: for the calling account, an
  external handle and a proof it yields the attested plaintext, or nothing when the proof
  does not validate.
\<close>

type_synonym verifier = "address \<Rightarrow> bytes32 \<Rightarrow> bytes \<Rightarrow> uint32 option"

datatype error =
    InvalidCiphertextProof   \<comment> \<open>revert inside \<^verbatim>\<open>FHE.fromExternal\<close>\<close>
  | EmptyLedger              \<comment> \<open>\<^verbatim>\<open>require(_bidders.length > 0, "No bids submitted")\<close>\<close>
  | UnauthorizedPrincipal    \<comment> \<open>\<^verbatim>\<open>require(_organizer != address(0), ...)\<close>\<close>

definition FHE_fromExternal :: "verifier \<Rightarrow> address \<Rightarrow> bytes32 \<Rightarrow> bytes \<Rightarrow> error + euint32" where
  "FHE_fromExternal V sender h inputProof =
     (case V sender h inputProof of
        None \<Rightarrow> Inl InvalidCiphertextProof
      | Some v \<Rightarrow> Inr (Input h v))"

definition FHE_asEuint32 :: "uint32 \<Rightarrow> euint32" where
  "FHE_asEuint32 v = Trivial v"

definition FHE_lt :: "euint32 \<Rightarrow> euint32 \<Rightarrow> ebool" where
  "FHE_lt a b = Lt a b"

definition FHE_select :: "ebool \<Rightarrow> euint32 \<Rightarrow> euint32 \<Rightarrow> euint32" where
  "FHE_select c a b = Select c a b"

section \<open>Contract state\<close>

record Bid =
  encryptedPrice :: euint32
  bidder :: address
  timestamp :: uint256
  exists :: bool

datatype event =
    BidSubmitted address uint256
  | LowestBidCalculated address uint256

text \<open>
  The storage variables of \<^verbatim>\<open>EncryptedBidding\<close>, under their names without the leading
  underscore, together with what a transaction changes outside storage: the persistent
  decryption grants recorded by the access-control list (\<open>acl\<close>) and the event log
  (\<open>events\<close>). \<open>self\<close> is \<^verbatim>\<open>address(this)\<close>. A Solidity mapping is total: an absent key
  reads as the zero value.
\<close>

record state =
  organizer :: address
  bids :: "address \<Rightarrow> Bid"
  bidders :: "address list"
  lowestBid :: euint32
  lowestBidder :: address
  lowestBidCalculated :: bool
  zeroEuint32 :: euint32
  self :: address
  acl :: "(euint32 \<times> address) set"
  events :: "event list"

definition zeroBid :: Bid where
  "zeroBid = \<lparr>encryptedPrice = Uninit, bidder = 0, timestamp = 0, exists = False\<rparr>"

definition FHE_allow :: "euint32 \<Rightarrow> address \<Rightarrow> state \<Rightarrow> state" where
  "FHE_allow h p s = s\<lparr>acl := insert (h, p) (acl s)\<rparr>"

definition FHE_allowThis :: "euint32 \<Rightarrow> state \<Rightarrow> state" where
  "FHE_allowThis h s = FHE_allow h (self s) s"

section \<open>Contract operations\<close>

text \<open>
  A call that reverts returns \<open>Inl\<close> and no state: the execution environment discards every
  write of a reverted transaction. In both fallible operations the failing statement is the
  first one, before any write.
\<close>

definition constructor :: "address \<Rightarrow> address \<Rightarrow> error + state" where
  "constructor this_address organizer_arg =
     (if \<not> (organizer_arg \<noteq> 0) then Inl UnauthorizedPrincipal
      else Inr \<lparr>organizer = organizer_arg,
                bids = (\<lambda>_. zeroBid),
                bidders = [],
                lowestBid = Uninit,
                lowestBidder = 0,
                lowestBidCalculated = False,
                zeroEuint32 = FHE_asEuint32 0,
                self = this_address,
                acl = {},
                events = []\<rparr>)"

definition submitBid ::
  "verifier \<Rightarrow> address \<Rightarrow> uint256 \<Rightarrow> bytes32 \<Rightarrow> bytes \<Rightarrow> state \<Rightarrow> error + state" where
  "submitBid V sender now extPrice inputProof s =
     (case FHE_fromExternal V sender extPrice inputProof of
        Inl e \<Rightarrow> Inl e
      | Inr price \<Rightarrow>
          let s1 = (if exists (bids s sender)
                    then s\<lparr>bids := (bids s)(sender :=
                             (bids s sender)\<lparr>encryptedPrice := price, timestamp := now\<rparr>)\<rparr>
                    else s\<lparr>bids := (bids s)(sender :=
                             \<lparr>encryptedPrice = price, bidder = sender,
                              timestamp = now, exists = True\<rparr>),
                           bidders := bidders s @ [sender]\<rparr>);
              s2 = FHE_allowThis (encryptedPrice (bids s1 sender)) s1;
              s3 = FHE_allow (encryptedPrice (bids s2 sender)) (organizer s2) s2;
              s4 = s3\<lparr>lowestBidCalculated := False\<rparr>
          in Inr (s4\<lparr>events := events s4 @ [BidSubmitted sender now]\<rparr>))"

definition getBid :: "address \<Rightarrow> state \<Rightarrow> euint32 \<times> address \<times> uint256 \<times> bool" where
  "getBid a s =
     (let bid = bids s a
      in (encryptedPrice bid, bidder bid, timestamp bid, exists bid))"

text \<open>The \<^verbatim>\<open>for\<close> loop of \<^verbatim>\<open>findLowestBid\<close>, from index \<open>i\<close> on.\<close>

function findLowestBid_loop :: "nat \<Rightarrow> state \<Rightarrow> state" where
  "findLowestBid_loop i s =
     (if i < length (bidders s) then
        let b = bidders s ! i;
            currentBid = encryptedPrice (bids s b);
            isLess = FHE_lt currentBid (lowestBid s)
        in findLowestBid_loop (i + 1)
             (s\<lparr>lowestBid := FHE_select isLess currentBid (lowestBid s)\<rparr>)
      else s)"
  by pat_completeness auto
termination
  by (relation "measure (\<lambda>(i, s). length (bidders s) - i)") auto

declare findLowestBid_loop.simps [simp del]

definition findLowestBid :: "uint256 \<Rightarrow> state \<Rightarrow> error + state" where
  "findLowestBid now s =
     (if \<not> (length (bidders s) > 0) then Inl EmptyLedger
      else
        let s1 = s\<lparr>lowestBid := encryptedPrice (bids s (bidders s ! 0))\<rparr>;
            s2 = s1\<lparr>lowestBidder := bidders s1 ! 0\<rparr>;
            s3 = findLowestBid_loop 1 s2;
            s4 = FHE_allowThis (lowestBid s3) s3;
            s5 = FHE_allow (lowestBid s4) (organizer s4) s4;
            s6 = s5\<lparr>lowestBidCalculated := True\<rparr>
        in Inr (s6\<lparr>events := events s6 @ [LowestBidCalculated (lowestBidder s6) now]\<rparr>))"

definition getLowestBid :: "state \<Rightarrow> euint32 \<times> bool" where
  "getLowestBid s =
     (if \<not> lowestBidCalculated s then (zeroEuint32 s, False)
      else (lowestBid s, True))"

definition getAllBidders :: "state \<Rightarrow> address list" where
  "getAllBidders s = bidders s"

definition hasBid :: "address \<Rightarrow> state \<Rightarrow> bool" where
  "hasBid a s = exists (bids s a)"

section \<open>Transactions\<close>

text \<open>
  A call of the external interface, with the caller and the block timestamp where the
  operation reads them. The four \<^verbatim>\<open>view\<close> functions cannot write.
\<close>

datatype call =
    SubmitBid address uint256 bytes32 bytes
  | FindLowestBid uint256
  | GetBid address
  | GetLowestBid
  | GetAllBidders
  | HasBid address

fun exec :: "verifier \<Rightarrow> call \<Rightarrow> state \<Rightarrow> error + state" where
  "exec V (SubmitBid sender now h p) s = submitBid V sender now h p s"
| "exec V (FindLowestBid now) s = findLowestBid now s"
| "exec V (GetBid a) s = Inr s"
| "exec V GetLowestBid s = Inr s"
| "exec V GetAllBidders s = Inr s"
| "exec V (HasBid a) s = Inr s"

text \<open>The state after a transaction: a reverted call leaves the state it found.\<close>

definition transact :: "verifier \<Rightarrow> call \<Rightarrow> state \<Rightarrow> state" where
  "transact V c s = (case exec V c s of Inl e \<Rightarrow> s | Inr s' \<Rightarrow> s')"

fun run :: "verifier \<Rightarrow> state \<Rightarrow> call list \<Rightarrow> state" where
  "run V s [] = s"
| "run V s (c # cs) = run V (transact V c s) cs"

section \<open>The fold of the specification\<close>

text \<open>
  The algorithm in the words of the specification: seed the running minimum with the
  first roster entry's ciphertext; for every subsequent entry compute
  \<open>isLess = compare(entry.sealedPrice, runningMin)\<close> and then
  \<open>runningMin = select(isLess, entry.sealedPrice, runningMin)\<close>. An empty roster has no
  running minimum.
\<close>

definition spec_step :: "(address \<Rightarrow> euint32) \<Rightarrow> euint32 \<Rightarrow> address \<Rightarrow> euint32" where
  "spec_step sealedPrice runningMin entry =
     (let isLess = FHE_lt (sealedPrice entry) runningMin
      in FHE_select isLess (sealedPrice entry) runningMin)"

fun spec_runningMin :: "(address \<Rightarrow> euint32) \<Rightarrow> address list \<Rightarrow> euint32 option" where
  "spec_runningMin sealedPrice [] = None"
| "spec_runningMin sealedPrice (first # subsequent) =
     Some (foldl (spec_step sealedPrice) (sealedPrice first) subsequent)"

definition sealedPrice_of :: "state \<Rightarrow> address \<Rightarrow> euint32" where
  "sealedPrice_of s a = encryptedPrice (bids s a)"

text \<open>
  The roster in the words of the specification: each distinct identity once, in the order
  of first submission. \<open>accepted_senders\<close> lists the callers of the submissions whose proof
  validates, in call order.
\<close>

definition first_occurrences :: "'a list \<Rightarrow> 'a list" where
  "first_occurrences xs = rev (remdups (rev xs))"

fun accepted_senders :: "verifier \<Rightarrow> call list \<Rightarrow> address list" where
  "accepted_senders V [] = []"
| "accepted_senders V (SubmitBid sender now h p # cs) =
     (if V sender h p = None then accepted_senders V cs
      else sender # accepted_senders V cs)"
| "accepted_senders V (c # cs) = accepted_senders V cs"

text \<open>
  The flag in the words of the specification: whether a minimum-finding pass has completed
  since the last ledger mutation. \<open>g\<close> is the answer before the calls; a successful
  submission makes it false, a successful pass makes it true, a reverted call or a read
  leaves it.
\<close>

fun pass_since_mutation :: "verifier \<Rightarrow> state \<Rightarrow> bool \<Rightarrow> call list \<Rightarrow> bool" where
  "pass_since_mutation V s g [] = g"
| "pass_since_mutation V s g (c # cs) =
     pass_since_mutation V (transact V c s)
       (if isl (exec V c s) then g
        else (case c of
                SubmitBid sender now h p \<Rightarrow> False
              | FindLowestBid now \<Rightarrow> True
              | _ \<Rightarrow> g)) cs"

section \<open>A concrete tender\<close>

text \<open>
  A plaintext-simulating verifier and the scenario of the test suite: organizer \<open>1\<close>,
  contract address \<open>99\<close>, and the bidders \<open>10\<close>, \<open>11\<close>, \<open>12\<close> with the prices 1000, 800
  and 1200.
\<close>

definition demo_verifier :: verifier where
  "demo_verifier sender h p =
     (if p = [] then None
      else if h = 1 then Some 1000
      else if h = 2 then Some 800
      else if h = 3 then Some 1200
      else if h = 4 then Some 700
      else None)"

definition demo_init :: state where
  "demo_init =
     \<lparr>organizer = 1, bids = (\<lambda>_. zeroBid), bidders = [], lowestBid = Uninit,
      lowestBidder = 0, lowestBidCalculated = False, zeroEuint32 = Trivial 0,
      self = 99, acl = {}, events = []\<rparr>"

definition demo_calls :: "call list" where
  "demo_calls = [SubmitBid 10 100 1 [0], SubmitBid 11 101 2 [0], SubmitBid 12 102 3 [0]]"

definition demo_ledger :: state where
  "demo_ledger = run demo_verifier demo_init demo_calls"

definition demo_computed :: state where
  "demo_computed = transact demo_verifier (FindLowestBid 200) demo_ledger"

definition demo_resubmit :: "call list" where
  "demo_resubmit =
     [SubmitBid 10 100 1 [0], SubmitBid 11 101 2 [0], SubmitBid 10 102 4 [0],
      SubmitBid 13 103 2 [], FindLowestBid 104, SubmitBid 12 105 3 [0]]"

definition demo_organizer_bids :: state where
  "demo_organizer_bids =
     run demo_verifier demo_init [SubmitBid 1 100 1 [0], FindLowestBid 200]"


definition demo_resubmitted :: state where
  "demo_resubmitted = transact demo_verifier (SubmitBid 10 300 4 [0]) demo_computed"

section \<open>Auxiliary predicates\<close>

fun is_SubmitBid :: "call \<Rightarrow> bool" where
  "is_SubmitBid (SubmitBid sender now h p) = True"
| "is_SubmitBid c = False"

fun is_FindLowestBid :: "call \<Rightarrow> bool" where
  "is_FindLowestBid (FindLowestBid now) = True"
| "is_FindLowestBid c = False"

text \<open>The roster lists exactly the accounts whose bid exists, each once.\<close>

definition roster_inv :: "state \<Rightarrow> bool" where
  "roster_inv s \<longleftrightarrow> distinct (bidders s) \<and> (\<forall>a. exists (bids s a) = (a \<in> set (bidders s)))"

text \<open>Every recorded grant names the contract itself or the organizer.\<close>

definition acl_inv :: "state \<Rightarrow> bool" where
  "acl_inv s \<longleftrightarrow> (\<forall>h p. (h, p) \<in> acl s \<longrightarrow> p = self s \<or> p = organizer s)"

section \<open>Properties of the loop\<close>

lemmas demo_defs =
  demo_ledger_def demo_calls_def demo_init_def demo_verifier_def transact_def submitBid_def
  FHE_fromExternal_def zeroBid_def Let_def FHE_allow_def FHE_allowThis_def

lemma findLowestBid_loop_eq:
  "findLowestBid_loop i s =
     s\<lparr>lowestBid := foldl (spec_step (sealedPrice_of s)) (lowestBid s) (drop i (bidders s))\<rparr>"
proof (induction i s rule: findLowestBid_loop.induct)
  case (1 i s)
  show ?case
  proof (cases "i < length (bidders s)")
    case True
    let ?c = "encryptedPrice (bids s (bidders s ! i))"
    let ?s' = "s\<lparr>lowestBid := FHE_select (FHE_lt ?c (lowestBid s)) ?c (lowestBid s)\<rparr>"
    have sp: "sealedPrice_of ?s' = sealedPrice_of s"
      by (simp add: sealedPrice_of_def fun_eq_iff)
    have "findLowestBid_loop i s = findLowestBid_loop (i + 1) ?s'"
      using True by (subst findLowestBid_loop.simps) (simp add: Let_def)
    also have "\<dots> = ?s'\<lparr>lowestBid :=
        foldl (spec_step (sealedPrice_of ?s')) (lowestBid ?s') (drop (i + 1) (bidders ?s'))\<rparr>"
      using "1.IH" [OF True refl refl refl] by simp
    also have "\<dots> = s\<lparr>lowestBid :=
        foldl (spec_step (sealedPrice_of s)) (lowestBid s) (drop i (bidders s))\<rparr>"
      using True
      by (simp add: sp Cons_nth_drop_Suc [symmetric] spec_step_def sealedPrice_of_def Let_def)
    finally show ?thesis .
  next
    case False
    then show ?thesis by (subst findLowestBid_loop.simps) simp
  qed
qed

lemma findLowestBid_Cons:
  assumes "bidders s = b # bs"
  shows "findLowestBid now s =
     Inr (s\<lparr>lowestBid := foldl (spec_step (sealedPrice_of s)) (sealedPrice_of s b) bs,
            lowestBidder := b,
            acl := insert (foldl (spec_step (sealedPrice_of s)) (sealedPrice_of s b) bs, organizer s)
                     (insert (foldl (spec_step (sealedPrice_of s)) (sealedPrice_of s b) bs, self s)
                        (acl s)),
            lowestBidCalculated := True,
            events := events s @ [LowestBidCalculated b now]\<rparr>)"
proof -
  have sp: "sealedPrice_of (s\<lparr>lowestBid := x, lowestBidder := y\<rparr>) = sealedPrice_of s" for x y
    by (simp add: sealedPrice_of_def fun_eq_iff)
  show ?thesis
    using assms
    by (simp add: findLowestBid_def findLowestBid_loop_eq Let_def FHE_allow_def
        FHE_allowThis_def sp) (simp add: sealedPrice_of_def)
qed

lemma decrypt_spec_step:
  "decrypt (spec_step f m e) = min (decrypt (f e)) (decrypt m)"
  by (auto simp add: spec_step_def FHE_select_def FHE_lt_def min_def)

lemma decrypt_foldl_spec_step:
  "decrypt (foldl (spec_step f) m es) = Min (insert (decrypt m) ((\<lambda>e. decrypt (f e)) ` set es))"
proof (induction es arbitrary: m)
  case Nil
  then show ?case by simp
next
  case (Cons e es)
  show ?case
    by (cases "es = []")
      (simp_all add: Cons.IH decrypt_spec_step min.assoc min.commute min.left_commute
        insert_commute)
qed

lemma demo_ledger_bidders: "bidders demo_ledger = [10, 11, 12]"
  by (simp add: demo_defs)

lemma demo_ledger_prices:
  "map (sealedPrice_of demo_ledger) [10, 11, 12] = [Input 1 1000, Input 2 800, Input 3 1200]"
  by (simp add: demo_defs sealedPrice_of_def)

section \<open>The minimum\<close>

text \<open>
  C1. On every non-empty roster \<^verbatim>\<open>findLowestBid\<close> succeeds; the stored minimum is the
  ciphertext obtained by seeding with the first roster entry's ciphertext and folding
  \<open>select(lt(price, runningMin), price, runningMin)\<close> over the subsequent entries in
  insertion order, and its plaintext is the least of the plaintexts of the roster's bids.
\<close>

theorem findLowestBid_minimum:
  assumes "bidders s \<noteq> []"
  shows "\<exists>s'. findLowestBid now s = Inr s'
           \<and> Some (lowestBid s') = spec_runningMin (sealedPrice_of s) (bidders s)
           \<and> decrypt (lowestBid s') = Min ((\<lambda>a. decrypt (sealedPrice_of s a)) ` set (bidders s))
           \<and> getLowestBid s' = (lowestBid s', True)"
proof -
  from assms obtain b bs where bs: "bidders s = b # bs"
    by (cases "bidders s") auto
  show ?thesis
    by (simp add: findLowestBid_Cons [OF bs] bs decrypt_foldl_spec_step getLowestBid_def)
qed

theorem findLowestBid_minimum_witness:
  "bidders demo_ledger \<noteq> []
   \<and> map (\<lambda>a. decrypt (sealedPrice_of demo_ledger a)) (bidders demo_ledger) = [1000, 800, 1200]
   \<and> (\<exists>s'. findLowestBid 200 demo_ledger = Inr s' \<and> decrypt (lowestBid s') = 800
          \<and> decrypt (fst (getLowestBid s')) = 800)"
  using findLowestBid_minimum [of demo_ledger 200] demo_ledger_prices
  by (auto simp add: demo_ledger_bidders)


section \<open>Results of the two mutating operations\<close>

lemma findLowestBid_Nil: "bidders s = [] \<Longrightarrow> findLowestBid now s = Inl EmptyLedger"
  by (simp add: findLowestBid_def)

lemma submitBid_None:
  "V sender h p = None \<Longrightarrow> submitBid V sender now h p s = Inl InvalidCiphertextProof"
  by (simp add: submitBid_def FHE_fromExternal_def)

lemma submitBid_Some:
  assumes "V sender h p = Some v"
  shows "submitBid V sender now h p s =
     Inr (s\<lparr>bids := (bids s)(sender :=
              (if exists (bids s sender)
               then (bids s sender)\<lparr>encryptedPrice := Input h v, timestamp := now\<rparr>
               else \<lparr>encryptedPrice = Input h v, bidder = sender,
                     timestamp = now, exists = True\<rparr>)),
            bidders := (if exists (bids s sender) then bidders s else bidders s @ [sender]),
            acl := insert (Input h v, organizer s) (insert (Input h v, self s) (acl s)),
            lowestBidCalculated := False,
            events := events s @ [BidSubmitted sender now]\<rparr>)"
  using assms
  by (simp add: submitBid_def FHE_fromExternal_def Let_def FHE_allow_def FHE_allowThis_def)

lemma sealedPrice_of_findLowestBid:
  "findLowestBid now s = Inr s' \<Longrightarrow> sealedPrice_of s' = sealedPrice_of s \<and> bidders s' = bidders s"
  by (cases "bidders s") (auto simp add: findLowestBid_Nil findLowestBid_Cons sealedPrice_of_def)

lemma demo_computed_eq: "findLowestBid 200 demo_ledger = Inr demo_computed"
  using demo_ledger_bidders
  by (simp add: demo_computed_def transact_def findLowestBid_Cons)

section \<open>Failing calls\<close>

text \<open>
  C4. \<^verbatim>\<open>findLowestBid\<close> on an empty roster fails with \<open>EmptyLedger\<close>, and the state after
  the transaction is the state before it: roster, bids, stored minimum and flag keep
  their values.
\<close>

theorem findLowestBid_empty:
  assumes "bidders s = []"
  shows "findLowestBid now s = Inl EmptyLedger \<and> transact V (FindLowestBid now) s = s"
  using assms by (simp add: findLowestBid_Nil transact_def)

theorem findLowestBid_empty_witness:
  "bidders demo_init = []
   \<and> findLowestBid 200 demo_init = Inl EmptyLedger
   \<and> transact demo_verifier (FindLowestBid 200) demo_init = demo_init"
  using findLowestBid_empty [of demo_init 200 demo_verifier]
  by (simp add: demo_init_def)

text \<open>
  C7. A submission whose proof does not validate fails with \<open>InvalidCiphertextProof\<close>, and
  the state after the transaction is the state before it: nothing is appended to the
  roster, no bid is created or changed, the flag keeps its value and no event is logged.
\<close>

theorem submitBid_invalid_proof:
  assumes "V sender h p = None"
  shows "submitBid V sender now h p s = Inl InvalidCiphertextProof
         \<and> transact V (SubmitBid sender now h p) s = s"
  using assms by (simp add: submitBid_None transact_def)

theorem submitBid_invalid_proof_witness:
  "demo_verifier 13 2 [] = None
   \<and> submitBid demo_verifier 13 103 2 [] demo_ledger = Inl InvalidCiphertextProof
   \<and> transact demo_verifier (SubmitBid 13 103 2 []) demo_ledger = demo_ledger"
  using submitBid_invalid_proof [of demo_verifier 13 2 "[]" 103 demo_ledger]
  by (simp add: demo_verifier_def)

section \<open>Repeated evaluation\<close>

text \<open>
  C8. On a non-empty roster two calls of \<^verbatim>\<open>findLowestBid\<close> in a row both succeed. The
  first leaves roster and bids as they were, so the second folds the same roster
  snapshot; each stores the ciphertext of the seed-and-fold over that snapshot, whose
  plaintext is the least bid of the roster. The two stored minima are the same ciphertext,
  hence the same plaintext, and \<^verbatim>\<open>getLowestBid\<close> reports it as existing after each.
\<close>

theorem findLowestBid_twice:
  assumes "bidders s \<noteq> []"
  shows "\<exists>s1 s2. findLowestBid now1 s = Inr s1 \<and> findLowestBid now2 s1 = Inr s2
           \<and> bidders s1 = bidders s \<and> bids s1 = bids s
           \<and> bidders s2 = bidders s \<and> bids s2 = bids s
           \<and> Some (lowestBid s1) = spec_runningMin (sealedPrice_of s) (bidders s)
           \<and> Some (lowestBid s2) = spec_runningMin (sealedPrice_of s1) (bidders s1)
           \<and> decrypt (lowestBid s1)
               = Min ((\<lambda>a. decrypt (sealedPrice_of s a)) ` set (bidders s))
           \<and> decrypt (lowestBid s2)
               = Min ((\<lambda>a. decrypt (sealedPrice_of s a)) ` set (bidders s))
           \<and> lowestBid s2 = lowestBid s1
           \<and> getLowestBid s1 = (lowestBid s1, True)
           \<and> getLowestBid s2 = getLowestBid s1
           \<and> decrypt (fst (getLowestBid s2)) = decrypt (fst (getLowestBid s1))"
proof -
  from assms obtain b bs where bs: "bidders s = b # bs"
    by (cases "bidders s") auto
  let ?m = "foldl (spec_step (sealedPrice_of s)) (sealedPrice_of s b) bs"
  obtain s1 where s1: "findLowestBid now1 s = Inr s1"
    by (simp add: findLowestBid_Cons [OF bs])
  have snap1: "bidders s1 = b # bs" "bids s1 = bids s"
    using s1 by (auto simp add: findLowestBid_Cons [OF bs] bs)
  have sp1: "sealedPrice_of s1 = sealedPrice_of s"
    by (simp add: sealedPrice_of_def fun_eq_iff snap1(2))
  obtain s2 where s2: "findLowestBid now2 s1 = Inr s2"
    by (simp add: findLowestBid_Cons [OF snap1(1)])
  have snap2: "bidders s2 = b # bs" "bids s2 = bids s"
    using s2 by (auto simp add: findLowestBid_Cons [OF snap1(1)] snap1)
  have m1: "lowestBid s1 = ?m" and f1: "lowestBidCalculated s1"
    using s1 by (auto simp add: findLowestBid_Cons [OF bs])
  have m2: "lowestBid s2 = ?m" and f2: "lowestBidCalculated s2"
    using s2 by (auto simp add: findLowestBid_Cons [OF snap1(1)] sp1)
  have least: "decrypt ?m = Min ((\<lambda>a. decrypt (sealedPrice_of s a)) ` set (b # bs))"
    by (simp add: decrypt_foldl_spec_step)
  show ?thesis
    using s1 s2 f1 f2
    by (simp add: snap1 snap2 sp1 m1 m2 bs getLowestBid_def decrypt_foldl_spec_step)
qed

theorem findLowestBid_twice_witness:
  "bidders demo_ledger \<noteq> []
   \<and> (\<exists>s1 s2. findLowestBid 200 demo_ledger = Inr s1 \<and> findLowestBid 201 s1 = Inr s2
          \<and> bidders s1 = [10, 11, 12] \<and> bids s1 = bids demo_ledger
          \<and> decrypt (lowestBid s1) = 800 \<and> decrypt (lowestBid s2) = 800
          \<and> lowestBid s2 = lowestBid s1 \<and> getLowestBid s2 = getLowestBid s1)"
proof -
  have "Min ((\<lambda>a. decrypt (sealedPrice_of demo_ledger a)) ` set (bidders demo_ledger)) = 800"
    using demo_ledger_prices by (simp add: demo_ledger_bidders)
  then show ?thesis
    using findLowestBid_twice [of demo_ledger 200 201]
    by (auto simp add: demo_ledger_bidders)
qed

section \<open>The recorded lowest bidder\<close>

text \<open>
  C9. After every successful \<^verbatim>\<open>findLowestBid\<close> the stored \<^verbatim>\<open>_lowestBidder\<close> and the
  address carried by the \<^verbatim>\<open>LowestBidCalculated\<close> event are the first roster entry
  \<^verbatim>\<open>_bidders[0]\<close>, whatever the bids are; the loop, started at any index, leaves
  \<^verbatim>\<open>_lowestBidder\<close> as it is.
\<close>

theorem lowestBidder_is_first_entry:
  assumes "findLowestBid now s = Inr s'"
  shows "lowestBidder s' = bidders s ! 0
         \<and> events s' = events s @ [LowestBidCalculated (bidders s ! 0) now]
         \<and> lowestBidder (findLowestBid_loop i s) = lowestBidder s"
proof (cases "bidders s")
  case Nil
  with assms show ?thesis by (simp add: findLowestBid_Nil)
next
  case (Cons b bs)
  with assms show ?thesis
    by (auto simp add: findLowestBid_Cons [OF Cons] findLowestBid_loop_eq)
qed

theorem lowestBidder_is_first_entry_witness:
  "findLowestBid 200 demo_ledger = Inr demo_computed
   \<and> lowestBidder demo_computed = 10
   \<and> events demo_computed = events demo_ledger @ [LowestBidCalculated 10 200]
   \<and> decrypt (lowestBid demo_computed) = decrypt (sealedPrice_of demo_ledger 11)"
proof -
  have "decrypt (lowestBid demo_computed) = 800"
    using demo_ledger_bidders demo_ledger_prices
    by (simp add: demo_computed_def transact_def findLowestBid_Cons decrypt_spec_step)
  moreover have "decrypt (sealedPrice_of demo_ledger 11) = 800"
    using demo_ledger_prices by simp
  ultimately show ?thesis
    using lowestBidder_is_first_entry [OF demo_computed_eq, of 1] demo_computed_eq
    by (simp add: demo_ledger_bidders)
qed


section \<open>Transactions, case by case\<close>

lemma transact_cases:
  obtains (Unchanged) "transact V c s = s"
      "isl (exec V c s) \<or> (\<not> is_SubmitBid c \<and> \<not> is_FindLowestBid c)"
  | (Submit) sender now h p v where "c = SubmitBid sender now h p" "V sender h p = Some v"
      "exec V c s = Inr (transact V c s)"
      "transact V c s =
         s\<lparr>bids := (bids s)(sender :=
              (if exists (bids s sender)
               then (bids s sender)\<lparr>encryptedPrice := Input h v, timestamp := now\<rparr>
               else \<lparr>encryptedPrice = Input h v, bidder = sender,
                     timestamp = now, exists = True\<rparr>)),
            bidders := (if exists (bids s sender) then bidders s else bidders s @ [sender]),
            acl := insert (Input h v, organizer s) (insert (Input h v, self s) (acl s)),
            lowestBidCalculated := False,
            events := events s @ [BidSubmitted sender now]\<rparr>"
  | (Find) now b bs where "c = FindLowestBid now" "bidders s = b # bs"
      "exec V c s = Inr (transact V c s)"
      "transact V c s =
         s\<lparr>lowestBid := foldl (spec_step (sealedPrice_of s)) (sealedPrice_of s b) bs,
            lowestBidder := b,
            acl := insert (foldl (spec_step (sealedPrice_of s)) (sealedPrice_of s b) bs, organizer s)
                     (insert (foldl (spec_step (sealedPrice_of s)) (sealedPrice_of s b) bs, self s)
                        (acl s)),
            lowestBidCalculated := True,
            events := events s @ [LowestBidCalculated b now]\<rparr>"
proof (cases c)
  case (SubmitBid sender now h p)
  show ?thesis
  proof (cases "V sender h p")
    case None
    then show ?thesis
      using SubmitBid by (intro Unchanged) (simp_all add: transact_def submitBid_None)
  next
    case (Some v)
    show ?thesis
      using SubmitBid Some
      by (intro Submit [of sender now h p v]) (simp_all add: transact_def submitBid_Some)
  qed
next
  case (FindLowestBid now)
  show ?thesis
  proof (cases "bidders s")
    case Nil
    then show ?thesis
      using FindLowestBid by (intro Unchanged) (simp_all add: transact_def findLowestBid_Nil)
  next
    case (Cons b bs)
    show ?thesis
      using FindLowestBid Cons
      by (intro Find [of now b bs]) (simp_all add: transact_def findLowestBid_Cons)
  qed
qed (auto intro: Unchanged simp add: transact_def)

lemma transact_constants:
  "organizer (transact V c s) = organizer s \<and> self (transact V c s) = self s
   \<and> zeroEuint32 (transact V c s) = zeroEuint32 s"
  by (rule transact_cases [of V c s]) simp_all

lemma run_constants:
  "organizer (run V s cs) = organizer s \<and> self (run V s cs) = self s
   \<and> zeroEuint32 (run V s cs) = zeroEuint32 s"
  by (induction cs arbitrary: s) (simp_all add: transact_constants)

lemma constructor_Inr:
  assumes "constructor this org = Inr s0"
  shows "organizer s0 = org" "self s0 = this" "bidders s0 = []" "acl s0 = {}"
    "\<not> lowestBidCalculated s0" "zeroEuint32 s0 = FHE_asEuint32 0" "bids s0 = (\<lambda>_. zeroBid)"
  using assms by (auto simp add: constructor_def split: if_splits)

lemma constructor_demo: "constructor 99 1 = Inr demo_init"
  by (simp add: constructor_def demo_init_def FHE_asEuint32_def)

section \<open>The flag\<close>

lemma flag_transact:
  "lowestBidCalculated (transact V c s) =
     (if isl (exec V c s) then lowestBidCalculated s
      else (case c of
              SubmitBid sender now h p \<Rightarrow> False
            | FindLowestBid now \<Rightarrow> True
            | _ \<Rightarrow> lowestBidCalculated s))"
  by (rule transact_cases [of V c s]) (auto split: call.splits)

lemma flag_run:
  "lowestBidCalculated (run V s cs) = pass_since_mutation V s (lowestBidCalculated s) cs"
proof (induction cs arbitrary: s)
  case Nil
  show ?case by simp
next
  case (Cons c cs)
  show ?case
    by (simp only: run.simps pass_since_mutation.simps Cons.IH flag_transact)
qed

text \<open>
  C2. Every successful \<^verbatim>\<open>submitBid\<close>, a re-submission included, clears the flag; every
  successful \<^verbatim>\<open>findLowestBid\<close> sets it; while it is clear \<^verbatim>\<open>getLowestBid\<close> returns the
  zero ciphertext and \<open>False\<close>; and after any sequence of calls on a freshly constructed
  contract the flag says whether a minimum-finding pass has completed since the last
  ledger mutation.
\<close>

theorem flag_tracks_passes:
  "(submitBid V sender now h p sa = Inr sa'
      \<longrightarrow> \<not> lowestBidCalculated sa' \<and> getLowestBid sa' = (zeroEuint32 sa', False))
   \<and> (findLowestBid now' sb = Inr sb'
      \<longrightarrow> lowestBidCalculated sb' \<and> getLowestBid sb' = (lowestBid sb', True))
   \<and> (\<not> lowestBidCalculated sc \<longrightarrow> getLowestBid sc = (zeroEuint32 sc, False))
   \<and> (constructor this org = Inr s0
      \<longrightarrow> lowestBidCalculated (run V s0 cs) = pass_since_mutation V s0 False cs
        \<and> zeroEuint32 (run V s0 cs) = FHE_asEuint32 0)"
proof (intro conjI impI)
  assume a: "submitBid V sender now h p sa = Inr sa'"
  then obtain v where "V sender h p = Some v"
    by (cases "V sender h p") (auto simp add: submitBid_None)
  with a show "\<not> lowestBidCalculated sa'" "getLowestBid sa' = (zeroEuint32 sa', False)"
    by (auto simp add: submitBid_Some getLowestBid_def)
next
  assume b: "findLowestBid now' sb = Inr sb'"
  then obtain x xs where "bidders sb = x # xs"
    by (cases "bidders sb") (auto simp add: findLowestBid_Nil)
  with b show "lowestBidCalculated sb'" "getLowestBid sb' = (lowestBid sb', True)"
    by (auto simp add: findLowestBid_Cons getLowestBid_def)
next
  assume "\<not> lowestBidCalculated sc"
  then show "getLowestBid sc = (zeroEuint32 sc, False)"
    by (simp add: getLowestBid_def)
next
  assume c: "constructor this org = Inr s0"
  show "lowestBidCalculated (run V s0 cs) = pass_since_mutation V s0 False cs"
    using flag_run [of V s0 cs] constructor_Inr(5) [OF c] by simp
  show "zeroEuint32 (run V s0 cs) = FHE_asEuint32 0"
    using run_constants [of V s0 cs] constructor_Inr(6) [OF c] by simp
qed


lemma demo_resubmitted_eq:
  "submitBid demo_verifier 10 300 4 [0] demo_computed = Inr demo_resubmitted"
proof -
  have "demo_verifier 10 4 [0] = Some 700"
    by (simp add: demo_verifier_def)
  then show ?thesis
    by (simp add: demo_resubmitted_def transact_def submitBid_Some)
qed

lemma demo_ledger_flag: "\<not> lowestBidCalculated demo_ledger"
  by (simp add: demo_defs)

theorem flag_tracks_passes_witness:
  "submitBid demo_verifier 10 300 4 [0] demo_computed = Inr demo_resubmitted
   \<and> lowestBidCalculated demo_computed
   \<and> \<not> lowestBidCalculated demo_resubmitted
   \<and> getLowestBid demo_resubmitted = (zeroEuint32 demo_resubmitted, False)
   \<and> findLowestBid 200 demo_ledger = Inr demo_computed
   \<and> getLowestBid demo_computed = (lowestBid demo_computed, True)
   \<and> \<not> lowestBidCalculated demo_ledger
   \<and> getLowestBid demo_ledger = (zeroEuint32 demo_ledger, False)
   \<and> constructor 99 1 = Inr demo_init
   \<and> lowestBidCalculated (run demo_verifier demo_init demo_resubmit)
       = pass_since_mutation demo_verifier demo_init False demo_resubmit"
  using flag_tracks_passes [where V = demo_verifier and sender = 10 and now = 300 and h = 4
      and p = "[0]" and sa = demo_computed and sa' = demo_resubmitted and now' = 200
      and sb = demo_ledger and sb' = demo_computed and sc = demo_ledger and this = 99
      and org = 1 and ?s0.0 = demo_init and cs = demo_resubmit]
    demo_resubmitted_eq demo_computed_eq demo_ledger_flag constructor_demo
  by simp

section \<open>The roster\<close>

lemma remdups_append_dup: "a \<in> set zs \<Longrightarrow> remdups (ys @ a # zs) = remdups (ys @ zs)"
  by (induction ys) auto

lemma first_occurrences_dup:
  "a \<in> set xs \<Longrightarrow> first_occurrences (xs @ a # ys) = first_occurrences (xs @ ys)"
  by (simp add: first_occurrences_def remdups_append_dup)

lemma first_occurrences_distinct: "distinct xs \<Longrightarrow> first_occurrences xs = xs"
  by (simp add: first_occurrences_def distinct_remdups_id)

lemma distinct_first_occurrences: "distinct (first_occurrences xs)"
  by (simp add: first_occurrences_def)

lemma accepted_senders_Cons:
  "accepted_senders V (c # cs) = accepted_senders V [c] @ accepted_senders V cs"
  by (cases c) simp_all

lemma roster_inv_transact: "roster_inv s \<Longrightarrow> roster_inv (transact V c s)"
  by (rule transact_cases [of V c s]) (auto simp add: roster_inv_def)

lemma bidders_transact:
  assumes "roster_inv s"
  shows "first_occurrences (bidders (transact V c s) @ ys) =
         first_occurrences (bidders s @ accepted_senders V [c] @ ys)"
proof (cases c)
  case (SubmitBid sender now h p)
  show ?thesis
  proof (cases "V sender h p")
    case None
    then show ?thesis
      using SubmitBid by (simp add: transact_def submitBid_None)
  next
    case (Some v)
    have "exists (bids s sender) = (sender \<in> set (bidders s))"
      using assms by (simp add: roster_inv_def)
    then show ?thesis
      using SubmitBid Some
      by (simp add: transact_def submitBid_Some first_occurrences_dup)
  qed
next
  case (FindLowestBid now)
  then show ?thesis
    by (cases "bidders s") (simp_all add: transact_def findLowestBid_Nil findLowestBid_Cons)
qed (simp_all add: transact_def)

lemma bidders_run:
  "roster_inv s \<Longrightarrow> bidders (run V s cs) = first_occurrences (bidders s @ accepted_senders V cs)"
proof (induction cs arbitrary: s)
  case Nil
  then show ?case
    by (simp add: roster_inv_def first_occurrences_distinct)
next
  case (Cons c cs)
  have "bidders (run V s (c # cs)) =
        first_occurrences (bidders (transact V c s) @ accepted_senders V cs)"
    using Cons.IH [OF roster_inv_transact [OF Cons.prems]] by simp
  also have "\<dots> = first_occurrences (bidders s @ accepted_senders V [c] @ accepted_senders V cs)"
    by (rule bidders_transact [OF Cons.prems])
  finally show ?case
    by (simp add: accepted_senders_Cons [of V c cs])
qed

lemma roster_inv_run: "roster_inv s \<Longrightarrow> roster_inv (run V s cs)"
  by (induction cs arbitrary: s) (simp_all add: roster_inv_transact)

lemma roster_inv_constructor: "constructor this org = Inr s0 \<Longrightarrow> roster_inv s0"
  by (auto simp add: constructor_def roster_inv_def zeroBid_def split: if_splits)

text \<open>
  C3. After any sequence of calls on a freshly constructed contract, \<^verbatim>\<open>getAllBidders\<close>
  is the list of the accounts whose submissions were accepted, each once, in the order of
  their first submission. A further accepted submission by an account already on the
  roster leaves the roster as it is and overwrites the price and the timestamp of that
  account's bid, and of no other; by a new account it appends the account and creates its
  bid.
\<close>

theorem roster_first_submission_order:
  assumes "constructor this org = Inr s0"
  shows "getAllBidders (run V s0 cs) = first_occurrences (accepted_senders V cs)
         \<and> distinct (getAllBidders (run V s0 cs))
         \<and> (V sender h p = Some v \<longrightarrow>
             (\<exists>s'. submitBid V sender now h p (run V s0 cs) = Inr s'
                \<and> (if sender \<in> set (getAllBidders (run V s0 cs))
                   then getAllBidders s' = getAllBidders (run V s0 cs)
                      \<and> bids s' = (bids (run V s0 cs))(sender :=
                           (bids (run V s0 cs) sender)
                             \<lparr>encryptedPrice := Input h v, timestamp := now\<rparr>)
                   else getAllBidders s' = getAllBidders (run V s0 cs) @ [sender]
                      \<and> bids s' = (bids (run V s0 cs))(sender :=
                           \<lparr>encryptedPrice = Input h v, bidder = sender,
                            timestamp = now, exists = True\<rparr>))))"
proof -
  have inv0: "roster_inv s0"
    by (rule roster_inv_constructor [OF assms])
  have inv: "roster_inv (run V s0 cs)"
    by (rule roster_inv_run [OF inv0])
  have roster: "bidders (run V s0 cs) = first_occurrences (accepted_senders V cs)"
    using bidders_run [OF inv0, of V cs] constructor_Inr(3) [OF assms] by simp
  have ex: "exists (bids (run V s0 cs) sender) = (sender \<in> set (bidders (run V s0 cs)))"
    using inv by (simp add: roster_inv_def)
  show ?thesis
    using roster ex
    by (simp add: getAllBidders_def distinct_first_occurrences submitBid_Some)
qed

theorem roster_first_submission_order_witness:
  "constructor 99 1 = Inr demo_init
   \<and> demo_verifier 10 3 [0] = Some 1200
   \<and> accepted_senders demo_verifier demo_resubmit = [10, 11, 10, 12]
   \<and> getAllBidders (run demo_verifier demo_init demo_resubmit) = [10, 11, 12]
   \<and> (\<exists>s'. submitBid demo_verifier 10 106 3 [0] (run demo_verifier demo_init demo_resubmit) = Inr s'
          \<and> getAllBidders s' = [10, 11, 12]
          \<and> encryptedPrice (bids s' 10) = Input 3 1200 \<and> timestamp (bids s' 10) = 106)"
proof -
  have v: "demo_verifier 10 3 [0] = Some 1200"
    by (simp add: demo_verifier_def)
  have acc: "accepted_senders demo_verifier demo_resubmit = [10, 11, 10, 12]"
    by (simp add: demo_resubmit_def demo_verifier_def)
  have fo: "first_occurrences [10, 11, 10, 12 :: address] = [10, 11, 12]"
    by (simp add: first_occurrences_def)
  show ?thesis
    using roster_first_submission_order [OF constructor_demo, of demo_verifier demo_resubmit
        10 3 "[0]" 1200 106] v acc fo constructor_demo
    by auto
qed


section \<open>Which operation writes what\<close>

text \<open>
  C5, as the code has it. The bids and the roster are written only by \<^verbatim>\<open>submitBid\<close>; the
  stored minimum ciphertext and the recorded lowest bidder are written only by
  \<^verbatim>\<open>findLowestBid\<close>; the flag is set to true by every successful \<^verbatim>\<open>findLowestBid\<close> and
  is also reset to false by every successful \<^verbatim>\<open>submitBid\<close>. A reverted call, of either
  operation, and each of the four reads leave the whole state as it was.
\<close>

theorem frame_by_operation:
  "(isl (exec V c s) \<longrightarrow> transact V c s = s)
   \<and> (\<not> isl (exec V c s) \<longrightarrow> exec V c s = Inr (transact V c s))
   \<and> (\<not> is_FindLowestBid c \<and> \<not> is_SubmitBid c \<longrightarrow> transact V c s = s)
   \<and> (\<not> is_SubmitBid c \<longrightarrow>
      bids (transact V c s) = bids s \<and> bidders (transact V c s) = bidders s)
   \<and> (\<not> is_FindLowestBid c \<longrightarrow>
      lowestBid (transact V c s) = lowestBid s
      \<and> lowestBidder (transact V c s) = lowestBidder s)
   \<and> (\<not> is_FindLowestBid c \<and> \<not> is_SubmitBid c \<longrightarrow>
      lowestBidCalculated (transact V c s) = lowestBidCalculated s)
   \<and> (is_SubmitBid c \<and> \<not> isl (exec V c s) \<longrightarrow> \<not> lowestBidCalculated (transact V c s))
   \<and> (is_FindLowestBid c \<and> \<not> isl (exec V c s) \<longrightarrow> lowestBidCalculated (transact V c s))"
proof -
  have reverted: "isl (exec V c s) \<longrightarrow> transact V c s = s"
    by (cases "exec V c s") (simp_all add: transact_def)
  have succeeded: "\<not> isl (exec V c s) \<longrightarrow> exec V c s = Inr (transact V c s)"
    by (cases "exec V c s") (simp_all add: transact_def)
  have reads: "\<not> is_FindLowestBid c \<and> \<not> is_SubmitBid c \<longrightarrow> transact V c s = s"
    by (cases c) (simp_all add: transact_def)
  have rest:
    "(\<not> is_SubmitBid c \<longrightarrow>
        bids (transact V c s) = bids s \<and> bidders (transact V c s) = bidders s)
     \<and> (\<not> is_FindLowestBid c \<longrightarrow>
        lowestBid (transact V c s) = lowestBid s
        \<and> lowestBidder (transact V c s) = lowestBidder s)
     \<and> (\<not> is_FindLowestBid c \<and> \<not> is_SubmitBid c \<longrightarrow>
        lowestBidCalculated (transact V c s) = lowestBidCalculated s)
     \<and> (is_SubmitBid c \<and> \<not> isl (exec V c s) \<longrightarrow> \<not> lowestBidCalculated (transact V c s))
     \<and> (is_FindLowestBid c \<and> \<not> isl (exec V c s) \<longrightarrow> lowestBidCalculated (transact V c s))"
    by (rule transact_cases [of V c s]) auto
  show ?thesis
    using reverted succeeded reads rest by blast
qed

lemma demo_init_reverts: "isl (exec demo_verifier (FindLowestBid 200) demo_init)"
  by (simp add: findLowestBid_Nil demo_init_def)

lemma demo_ledger_reverts: "isl (exec demo_verifier (SubmitBid 13 103 2 []) demo_ledger)"
  by (simp add: submitBid_None demo_verifier_def)

theorem frame_by_operation_witness:
  "isl (exec demo_verifier (SubmitBid 13 103 2 []) demo_ledger)
   \<and> transact demo_verifier (SubmitBid 13 103 2 []) demo_ledger = demo_ledger
   \<and> isl (exec demo_verifier (FindLowestBid 200) demo_init)
   \<and> transact demo_verifier (FindLowestBid 200) demo_init = demo_init
   \<and> \<not> is_SubmitBid (FindLowestBid 200) \<and> is_FindLowestBid (FindLowestBid 200)
   \<and> \<not> isl (exec demo_verifier (FindLowestBid 200) demo_ledger)
   \<and> exec demo_verifier (FindLowestBid 200) demo_ledger
       = Inr (transact demo_verifier (FindLowestBid 200) demo_ledger)
   \<and> bids (transact demo_verifier (FindLowestBid 200) demo_ledger) = bids demo_ledger
   \<and> bidders (transact demo_verifier (FindLowestBid 200) demo_ledger) = bidders demo_ledger
   \<and> lowestBidCalculated (transact demo_verifier (FindLowestBid 200) demo_ledger)
   \<and> \<not> is_FindLowestBid (SubmitBid 10 300 4 [0])
   \<and> lowestBid (transact demo_verifier (SubmitBid 10 300 4 [0]) demo_computed)
       = lowestBid demo_computed
   \<and> lowestBidder (transact demo_verifier (SubmitBid 10 300 4 [0]) demo_computed)
       = lowestBidder demo_computed
   \<and> is_SubmitBid (SubmitBid 10 300 4 [0])
   \<and> \<not> isl (exec demo_verifier (SubmitBid 10 300 4 [0]) demo_computed)
   \<and> \<not> lowestBidCalculated (transact demo_verifier (SubmitBid 10 300 4 [0]) demo_computed)
   \<and> \<not> is_FindLowestBid GetLowestBid \<and> \<not> is_SubmitBid GetLowestBid
   \<and> transact demo_verifier GetLowestBid demo_computed = demo_computed"
proof -
  have ok1: "\<not> isl (exec demo_verifier (FindLowestBid 200) demo_ledger)"
    by (simp add: demo_computed_eq)
  have ok2: "\<not> isl (exec demo_verifier (SubmitBid 10 300 4 [0]) demo_computed)"
    by (simp add: demo_resubmitted_eq)
  show ?thesis
    using frame_by_operation [of demo_verifier "SubmitBid 13 103 2 []" demo_ledger]
      frame_by_operation [of demo_verifier "FindLowestBid 200" demo_init]
      frame_by_operation [of demo_verifier "FindLowestBid 200" demo_ledger]
      frame_by_operation [of demo_verifier "SubmitBid 10 300 4 [0]" demo_computed]
      frame_by_operation [of demo_verifier GetLowestBid demo_computed]
      demo_init_reverts demo_ledger_reverts ok1 ok2
    by simp
qed

lemma demo_computed_fields:
  "lowestBidCalculated demo_computed"
  "events demo_computed = events demo_ledger @ [LowestBidCalculated 10 200]"
  "bidders demo_computed = [10, 11, 12]"
  by (simp_all add: demo_computed_def transact_def findLowestBid_Cons [OF demo_ledger_bidders]
      demo_ledger_bidders)

lemma demo_resubmitted_flag: "\<not> lowestBidCalculated demo_resubmitted"
proof -
  have "demo_verifier 10 4 [0] = Some 700"
    by (simp add: demo_verifier_def)
  then show ?thesis
    by (simp add: demo_resubmitted_def transact_def submitBid_Some)
qed

text \<open>
  C5 as stated does not hold: \<^verbatim>\<open>submitBid\<close> writes the flag. After a pass has set it, a
  re-submission by bidder \<open>10\<close> succeeds and the flag is false.
\<close>

theorem submitBid_writes_flag_counterexample:
  "lowestBidCalculated demo_computed
   \<and> exec demo_verifier (SubmitBid 10 300 4 [0]) demo_computed = Inr demo_resubmitted
   \<and> \<not> lowestBidCalculated demo_resubmitted"
  by (simp add: demo_computed_fields demo_resubmitted_eq demo_resubmitted_flag)

section \<open>What the notification carries\<close>






section \<open>Decryption grants on the minimum\<close>

lemma acl_inv_transact: "acl_inv s \<Longrightarrow> acl_inv (transact V c s)"
  by (rule transact_cases [of V c s]) (auto simp add: acl_inv_def)

lemma acl_inv_run: "acl_inv s \<Longrightarrow> acl_inv (run V s cs)"
  by (induction cs arbitrary: s) (simp_all add: acl_inv_transact)

lemma acl_inv_constructor: "constructor this org = Inr s0 \<Longrightarrow> acl_inv s0"
  by (auto simp add: constructor_def acl_inv_def split: if_splits)

text \<open>
  C10, as the code has it. On a contract reached from construction by any sequence of
  calls, a successful \<^verbatim>\<open>findLowestBid\<close> adds to the access-control list the grants of the
  minimum ciphertext to the contract itself and to the organizer, and afterwards the
  principals holding a grant on the minimum are exactly these two. A participant holds a
  grant on the minimum only if it is the organizer (or the contract's own address): the
  code has no loop granting the minimum to the bidders.
\<close>

theorem minimum_grants:
  assumes "constructor this org = Inr s0"
    and "findLowestBid now (run V s0 cs) = Inr s'"
  shows "acl s' = insert (lowestBid s', org) (insert (lowestBid s', this) (acl (run V s0 cs)))
         \<and> {a. (lowestBid s', a) \<in> acl s'} = {this, org}
         \<and> (\<forall>a \<in> set (getAllBidders s').
               a \<noteq> org \<and> a \<noteq> this \<longrightarrow> (lowestBid s', a) \<notin> acl s')"
proof -
  let ?S = "run V s0 cs"
  have inv: "acl_inv ?S"
    by (rule acl_inv_run [OF acl_inv_constructor [OF assms(1)]])
  have fixed: "organizer ?S = org" "self ?S = this"
    using run_constants [of V s0 cs] constructor_Inr(1,2) [OF assms(1)] by simp_all
  from assms(2) obtain b bs where bs: "bidders ?S = b # bs"
    by (cases "bidders ?S") (auto simp add: findLowestBid_Nil)
  have grants: "acl s' = insert (lowestBid s', org) (insert (lowestBid s', this) (acl ?S))"
    using assms(2) fixed by (auto simp add: findLowestBid_Cons [OF bs])
  have only: "(h, a) \<in> acl ?S \<Longrightarrow> a = this \<or> a = org" for h a
    using inv fixed by (auto simp add: acl_inv_def)
  have exactly: "{a. (lowestBid s', a) \<in> acl s'} = {this, org}"
    using only by (auto simp add: grants)
  show ?thesis
    using grants exactly by auto
qed

theorem minimum_grants_witness:
  "constructor 99 1 = Inr demo_init
   \<and> findLowestBid 200 (run demo_verifier demo_init demo_calls) = Inr demo_computed
   \<and> {a. (lowestBid demo_computed, a) \<in> acl demo_computed} = {99, 1}
   \<and> getAllBidders demo_computed = [10, 11, 12]
   \<and> (lowestBid demo_computed, 10) \<notin> acl demo_computed
   \<and> (lowestBid demo_computed, 11) \<notin> acl demo_computed
   \<and> (lowestBid demo_computed, 12) \<notin> acl demo_computed"
proof -
  have pass: "findLowestBid 200 (run demo_verifier demo_init demo_calls) = Inr demo_computed"
    using demo_computed_eq by (simp add: demo_ledger_def)
  have roster: "getAllBidders demo_computed = [10, 11, 12]"
    by (simp add: getAllBidders_def demo_computed_fields)
  have grants: "{a. (lowestBid demo_computed, a) \<in> acl demo_computed} = {99, 1}"
    and others: "\<forall>a \<in> set (getAllBidders demo_computed).
         a \<noteq> 1 \<and> a \<noteq> 99 \<longrightarrow> (lowestBid demo_computed, a) \<notin> acl demo_computed"
    using minimum_grants [OF constructor_demo pass] by blast+
  have "(lowestBid demo_computed, 10) \<notin> acl demo_computed"
    "(lowestBid demo_computed, 11) \<notin> acl demo_computed"
    "(lowestBid demo_computed, 12) \<notin> acl demo_computed"
    using others by (simp_all add: roster)
  then show ?thesis
    using constructor_demo pass roster grants by blast
qed

text \<open>
  C10 as stated does not hold where the organizer is itself a bidder, which nothing in the
  contract excludes: the organizer \<open>1\<close> submits a bid, the pass runs, and the organizer,
  a participant, holds a grant on the minimum.
\<close>

theorem organizer_participant_counterexample:
  "constructor 99 1 = Inr demo_init
   \<and> organizer demo_organizer_bids = 1
   \<and> 1 \<in> set (getAllBidders demo_organizer_bids)
   \<and> lowestBidCalculated demo_organizer_bids
   \<and> (lowestBid demo_organizer_bids, 1) \<in> acl demo_organizer_bids"
  using constructor_demo
  by (simp add: demo_organizer_bids_def demo_defs getAllBidders_def findLowestBid_def
      findLowestBid_loop.simps)

end
